theory Spec2Isabelle
  imports
    Complex_Main
    "HOL-Library.Word"
    "HOL-Library.Sublist"
    "HOL-Library.Char_ord"
    "HOL-Library.List_Lexorder"
    "HOL-Library.Multiset"
begin

section \<open>Data model\<close>

text \<open>
  The records of the potion builder. Every named object derives from \<open>ObjectBase\<close>, which
  holds the \<open>_name\<close> field; \<open>Effect\<close> adds a \<open>double\<close> magnitude, an \<open>unsigned\<close> duration
  and a keyword list (field \<open>effect_keywords\<close>), \<open>Ingredient\<close> adds its effect slots. The magnitude is modelled by a
  real number (the comparisons of the code are those of a linear order, NaN apart), the
  duration by a 32-bit word with its unsigned order. The effect slots of an ingredient
  are a \<open>std::array<Effect, 4>\<close>: the list \<open>effects\<close> holds the four slots in order. The
  functions only iterate over the slots, so the properties below are proved for a list
  of any length, which covers the four-slot arrays; every concrete ingredient in this
  theory has exactly four slots.
\<close>

type_synonym Keyword = string

record ObjectBase =
  name :: string

record Effect = ObjectBase +
  magnitude :: real
  duration :: "32 word"
  effect_keywords :: "Keyword list"

record Ingredient = ObjectBase +
  effects :: "Effect list"

type_synonym EffectList = "Effect list"

type_synonym IngrList = "Ingredient list"

text \<open>
  Modelled from the spec: the constructor \<open>Effect{name, magnitude, duration}\<close> used by the
  scaling step is declared in Ingredient.hpp, which is not among the sources. The effect
  it builds has the name, magnitude and duration given. The keyword set it gives the new
  effect is not visible in the sources; it is the parameter \<open>kws\<close>, a function of the three
  arguments the constructor receives.
\<close>

definition Effect3 ::
  "(string \<Rightarrow> real \<Rightarrow> 32 word \<Rightarrow> Keyword list) \<Rightarrow> string \<Rightarrow> real \<Rightarrow> 32 word \<Rightarrow> Effect" where
  "Effect3 kws n m d = \<lparr>name = n, magnitude = m, duration = d, effect_keywords = kws n m d\<rparr>"

section \<open>Strings\<close>

text \<open>
  Modelled from the spec: \<open>str::tolower\<close> comes from a shared library that is not among
  the sources; it lowercases a string character by character (ASCII letters).
\<close>

definition tolower_char :: "char \<Rightarrow> char" where
  "tolower_char c =
     (case map_of (zip ''ABCDEFGHIJKLMNOPQRSTUVWXYZ'' ''abcdefghijklmnopqrstuvwxyz'') c of
        None \<Rightarrow> c
      | Some l \<Rightarrow> l)"

definition tolower :: "string \<Rightarrow> string" where
  "tolower s = map tolower_char s"

text \<open>
  \<open>std::string::find(needle)\<close>: the lowest position at which \<open>needle\<close> starts, or
  \<open>npos\<close> (here \<open>None\<close>). The code only ever tests \<open>find(needle) < size()\<close>; \<open>npos\<close> is
  the largest \<open>size_t\<close>, so that test fails for it.
\<close>

fun find_from :: "string \<Rightarrow> string \<Rightarrow> nat \<Rightarrow> nat option" where
  "find_from [] needle pos = (if needle = [] then Some pos else None)"
| "find_from (c # cs) needle pos =
     (if prefix needle (c # cs) then Some pos else find_from cs needle (Suc pos))"

definition str_find :: "string \<Rightarrow> string \<Rightarrow> nat option" where
  "str_find hay needle = find_from hay needle 0"

definition find_lt_size :: "string \<Rightarrow> string \<Rightarrow> bool" where
  "find_lt_size hay needle =
     (case str_find hay needle of None \<Rightarrow> False | Some p \<Rightarrow> p < length hay)"

section \<open>Potion.hpp: the effect-merge reduction and the scaling step\<close>

datatype error = TooManyIngredients | NotEnoughIngredients

text \<open>
  The lambda \<open>is_duplicate\<close> returns an iterator to the first effect of \<open>target\<close> with the
  name of \<open>fx\<close>, or \<open>target.end()\<close>. Iterators are positions; \<open>end()\<close> is the length.
\<close>

fun is_duplicate :: "EffectList \<Rightarrow> Effect \<Rightarrow> nat" where
  "is_duplicate [] fx = 0"
| "is_duplicate (e # es) fx = (if name e = name fx then 0 else Suc (is_duplicate es fx))"

text \<open>The body of the inner loop, on the pair of buffers \<open>(common, tmp)\<close>.\<close>

definition merge_effect :: "EffectList \<times> EffectList \<Rightarrow> Effect \<Rightarrow> EffectList \<times> EffectList" where
  "merge_effect st it =
     (let common = fst st; tmp = snd st; dupl = is_duplicate tmp it in
      if dupl \<noteq> length tmp then
        (let current = is_duplicate common it in
         if current = length common then
           (if magnitude it < magnitude (tmp ! dupl)
            then (common @ [tmp ! dupl], tmp)
            else (common @ [it], tmp))
         else
           (let c0 = common ! current;
                c1 = (if magnitude it > magnitude c0 then c0\<lparr>magnitude := magnitude it\<rparr> else c0);
                c2 = (if duration it > duration c1 then c1\<lparr>duration := duration it\<rparr> else c1)
            in (common[current := c2], tmp)))
      else (common, tmp @ [it]))"

definition merge_ingredient :: "EffectList \<times> EffectList \<Rightarrow> Ingredient \<Rightarrow> EffectList \<times> EffectList" where
  "merge_ingredient st i = fold (\<lambda>it s. merge_effect s it) (effects i) st"

definition get_common_effects :: "IngrList \<Rightarrow> error + EffectList" where
  "get_common_effects ingr =
     (if length ingr > 4 then Inl TooManyIngredients
      else if length ingr < 2 then Inl NotEnoughIngredients
      else Inr (fst (fold (\<lambda>i s. merge_ingredient s i) ingr ([], []))))"

text \<open>
  \<open>Potion::calculate_stats\<close>. \<open>GameSettings::calculate_magnitude\<close> is external; it is the
  parameter \<open>calculate_magnitude\<close>. The parameter \<open>kws\<close> is that of the constructor
  \<open>Effect3\<close>.
\<close>

definition calculate_stats ::
  "(string \<Rightarrow> real \<Rightarrow> 32 word \<Rightarrow> Keyword list) \<Rightarrow> (real \<Rightarrow> real) \<Rightarrow> EffectList \<Rightarrow> EffectList" where
  "calculate_stats kws calculate_magnitude base =
     fold (\<lambda>it vec.
             (let magnitude' = calculate_magnitude (magnitude it);
                  duration' = duration it
              in vec @ [Effect3 kws (name it) magnitude' duration']))
          base []"

record PotionBase = ObjectBase +
  base_fx :: EffectList

record Potion = PotionBase +
  fx :: EffectList

text \<open>The constructors \<open>Potion(name, ingredients, gs)\<close> and \<open>Potion(ingredients, gs)\<close>.\<close>

definition Potion_named ::
  "(string \<Rightarrow> real \<Rightarrow> 32 word \<Rightarrow> Keyword list) \<Rightarrow> string \<Rightarrow> IngrList \<Rightarrow> (real \<Rightarrow> real)
     \<Rightarrow> error + Potion" where
  "Potion_named kws n ingredients gs =
     (case get_common_effects ingredients of
        Inl e \<Rightarrow> Inl e
      | Inr base \<Rightarrow> Inr \<lparr>name = n, base_fx = base, fx = calculate_stats kws gs base\<rparr>)"

definition Potion_unnamed ::
  "(string \<Rightarrow> real \<Rightarrow> 32 word \<Rightarrow> Keyword list) \<Rightarrow> IngrList \<Rightarrow> (real \<Rightarrow> real) \<Rightarrow> error + Potion" where
  "Potion_unnamed kws ingredients gs = Potion_named kws ''Potion'' ingredients gs"

section \<open>Format.hpp: the match predicate and effect filtering\<close>

text \<open>
  The display flags of \<open>OutputFormat\<close>. The colour table \<open>_colors\<close> plays no part in
  matching or filtering and is left out.
\<close>

record OutputFormat =
  flag_quiet :: bool
  flag_verbose :: bool
  flag_exact :: bool
  flag_all :: bool
  flag_export :: bool
  flag_reverse :: bool
  flag_color :: bool
  flag_smart :: bool
  indent :: "32 word"
  precision :: "32 word"

text \<open>
  The constructor \<open>Format(quiet, verbose, exact, all, file_export, reverse_output,
  allow_color_fx, use_local_cache, cli_precision)\<close> without an INI file: the indent is 3.
\<close>

definition Format :: "bool \<Rightarrow> bool \<Rightarrow> bool \<Rightarrow> bool \<Rightarrow> bool \<Rightarrow> bool \<Rightarrow> bool \<Rightarrow> bool \<Rightarrow> 32 word \<Rightarrow> OutputFormat" where
  "Format quiet verbose exact all file_export reverse_output allow_color_fx use_local_cache cli_precision =
     \<lparr>flag_quiet = quiet, flag_verbose = verbose, flag_exact = exact, flag_all = all,
      flag_export = file_export, flag_reverse = reverse_output, flag_color = allow_color_fx,
      flag_smart = use_local_cache, indent = 3, precision = cli_precision\<rparr>"

definition match :: "'a OutputFormat_scheme \<Rightarrow> string \<Rightarrow> string \<Rightarrow> bool" where
  "match fmt objName searchName =
     (if flag_exact fmt then objName = searchName
      else (objName = searchName \<or> find_lt_size objName searchName))"

text \<open>\<open>Formatter::vectorize_effects(effects, search_strings)\<close>.\<close>

definition vectorize_effects :: "'a OutputFormat_scheme \<Rightarrow> Effect list \<Rightarrow> string list \<Rightarrow> Effect list" where
  "vectorize_effects fmt effs search_strings =
     fold (\<lambda>fx vec.
             if \<not> flag_quiet fmt then vec @ [fx]
             else (let name' = tolower (name fx) in
                   if list_ex (\<lambda>search_str. match fmt name' search_str) search_strings
                   then vec @ [fx] else vec))
          effs []"

text \<open>\<open>Format::get_fx(arr, names_lowercase)\<close>; the \<open>break\<close> ends the loop with the vector built so far.\<close>

fun get_fx_loop :: "'a OutputFormat_scheme \<Rightarrow> Effect list \<Rightarrow> string list \<Rightarrow> Effect list \<Rightarrow> Effect list" where
  "get_fx_loop fmt [] names_lowercase vec = vec"
| "get_fx_loop fmt (it # rest) names_lowercase vec =
     (if \<not> flag_quiet fmt then get_fx_loop fmt rest names_lowercase (vec @ [it])
      else (let lc = tolower (name it) in
            if list_ex (\<lambda>n. match fmt lc n) names_lowercase then
              (if flag_exact fmt then vec @ [it]
               else get_fx_loop fmt rest names_lowercase (vec @ [it]))
            else get_fx_loop fmt rest names_lowercase vec))"

definition get_fx :: "'a OutputFormat_scheme \<Rightarrow> Effect list \<Rightarrow> string list \<Rightarrow> Effect list" where
  "get_fx fmt arr names_lowercase = get_fx_loop fmt arr names_lowercase []"

section \<open>IngredientCache.hpp: the registry\<close>

text \<open>
  The container is a \<open>std::set\<close> with a comparator: a list kept in strictly ascending
  order. \<open>insert\<close> returns the new container and whether the element went in; an element
  equivalent to one already present (neither is less than the other) is not inserted
  and the container is left as it was.
\<close>

fun set_insert :: "('a \<Rightarrow> 'a \<Rightarrow> bool) \<Rightarrow> 'a \<Rightarrow> 'a list \<Rightarrow> 'a list \<times> bool" where
  "set_insert lt x [] = ([x], True)"
| "set_insert lt x (y # ys) =
     (if lt x y then (x # y # ys, True)
      else if lt y x then (let r = set_insert lt x ys in (y # fst r, snd r))
      else (y # ys, False))"

text \<open>
  Modelled from the spec: the comparator \<open>_internal::less<Ingredient>\<close> is declared in
  Ingredient.hpp, which is not among the sources. It orders ingredients by name,
  case-sensitively and lexicographically (the order of \<open>std::string\<close>, bytes compared
  as unsigned).
\<close>

definition less_Ingredient :: "Ingredient \<Rightarrow> Ingredient \<Rightarrow> bool" where
  "less_Ingredient a b = (name a < name b)"

type_synonym Container = "Ingredient list"

text \<open>\<open>IngredientCache::sort\<close>; the counter is an \<open>unsigned\<close>.\<close>

definition sort_insert :: "Container \<times> 32 word \<Rightarrow> Ingredient \<Rightarrow> Container \<times> 32 word" where
  "sort_insert st it =
     (let r = set_insert less_Ingredient it (fst st) in
      if \<not> snd r then (fst r, snd st + 1) else (fst r, snd st))"

definition IngredientCache_sort :: "IngrList \<Rightarrow> Container \<times> 32 word" where
  "IngredientCache_sort ingr_cont = fold (\<lambda>it st. sort_insert st it) ingr_cont ([], 0)"

text \<open>The loop of \<open>sort\<close> started from any container and counter.\<close>

definition sort_from :: "Container \<times> 32 word \<Rightarrow> IngrList \<Rightarrow> Container \<times> 32 word" where
  "sort_from st xs = fold (\<lambda>it st. sort_insert st it) xs st"

text \<open>
  \<open>std::find_if\<close> over the positions from \<open>pos\<close> to the end; the list given is the part
  of the container from \<open>pos\<close> on. The result is a position; the end is the length of
  the container.
\<close>

fun find_if_from :: "('a \<Rightarrow> bool) \<Rightarrow> 'a list \<Rightarrow> nat \<Rightarrow> nat" where
  "find_if_from P [] pos = pos"
| "find_if_from P (x # xs) pos = (if P x then pos else find_if_from P xs (Suc pos))"

text \<open>
  \<open>IngredientCache::get(name, off, only_effects)\<close>. The function \<open>pred\<close> that its lambda
  calls is not declared in the sources; it is the parameter \<open>pred\<close>.
\<close>

definition get :: "(string \<Rightarrow> string \<Rightarrow> bool) \<Rightarrow> Container \<Rightarrow> string \<Rightarrow> nat \<Rightarrow> bool \<Rightarrow> nat" where
  "get pred ingr nm off only_effects =
     find_if_from
       (\<lambda>i. if only_effects
            then list_ex (\<lambda>fx. pred (tolower (name fx)) nm) (effects i)
            else name i = nm)
       (drop off ingr) off"

datatype FindType = BOTH | INGR | EFFECT

text \<open>
  \<open>RegistryType::find_best_fit\<close>. A scan yields \<open>Inl it\<close> when the function returns the
  position \<open>it\<close> from inside the loop, and \<open>Inr vec\<close>, the collected positions, when the
  loop runs to its end.
\<close>

fun fx_scan :: "string \<Rightarrow> nat \<Rightarrow> Effect list \<Rightarrow> nat list \<Rightarrow> nat + nat list" where
  "fx_scan nm it [] vec = Inr vec"
| "fx_scan nm it (f # rest) vec =
     (let lc = tolower (name f) in
      if lc = nm then Inl it
      else if find_lt_size lc nm then fx_scan nm it rest (vec @ [it])
      else fx_scan nm it rest vec)"

fun best_fit_scan :: "FindType \<Rightarrow> string \<Rightarrow> Ingredient list \<Rightarrow> nat \<Rightarrow> nat list \<Rightarrow> nat + nat list" where
  "best_fit_scan search nm [] it vec = Inr vec"
| "best_fit_scan INGR nm (i # rest) it vec =
     (let name_lc = tolower (name i) in
      if name_lc = nm then Inl it
      else if find_lt_size name_lc nm then best_fit_scan INGR nm rest (Suc it) (vec @ [it])
      else best_fit_scan INGR nm rest (Suc it) vec)"
| "best_fit_scan BOTH nm (i # rest) it vec =
     (let name_lc = tolower (name i) in
      if name_lc = nm then Inl it
      else if find_lt_size name_lc nm then best_fit_scan BOTH nm rest (Suc it) (vec @ [it])
      else (case fx_scan nm it (effects i) vec of
              Inl r \<Rightarrow> Inl r
            | Inr vec' \<Rightarrow> best_fit_scan BOTH nm rest (Suc it) vec'))"
| "best_fit_scan EFFECT nm (i # rest) it vec =
     (case fx_scan nm it (effects i) vec of
        Inl r \<Rightarrow> Inl r
      | Inr vec' \<Rightarrow> best_fit_scan EFFECT nm rest (Suc it) vec')"

definition find_best_fit :: "Container \<Rightarrow> string \<Rightarrow> FindType \<Rightarrow> nat" where
  "find_best_fit ingr nm search =
     (case best_fit_scan search nm ingr 0 [] of
        Inl it \<Rightarrow> it
      | Inr vec \<Rightarrow> (case vec of [] \<Rightarrow> length ingr | front # _ \<Rightarrow> front))"

section \<open>Example records\<close>

text \<open>
  Two ingredients with four effect slots each. They share the effect \<open>Fire Damage\<close>,
  which carries a keyword on both; the first has the larger duration, the second the
  larger magnitude.
\<close>

definition fire_salts :: Ingredient where
  "fire_salts = \<lparr>name = ''Fire Salts'', effects =
     [\<lparr>name = ''Fire Damage'', magnitude = 10, duration = 100, effect_keywords = [''MagicDamageFire'']\<rparr>,
      \<lparr>name = ''Weakness to Frost'', magnitude = 3, duration = 30, effect_keywords = []\<rparr>,
      \<lparr>name = ''Restore Magicka'', magnitude = 5, duration = 0, effect_keywords = []\<rparr>,
      \<lparr>name = ''Regenerate Magicka'', magnitude = 5, duration = 300, effect_keywords = []\<rparr>]\<rparr>"

definition ember_root :: Ingredient where
  "ember_root = \<lparr>name = ''Ember Root'', effects =
     [\<lparr>name = ''Resist Frost'', magnitude = 4, duration = 60, effect_keywords = []\<rparr>,
      \<lparr>name = ''Fire Damage'', magnitude = 20, duration = 5, effect_keywords = [''MagicDamageFire'']\<rparr>,
      \<lparr>name = ''Fortify Stamina'', magnitude = 2, duration = 60, effect_keywords = []\<rparr>,
      \<lparr>name = ''Paralysis'', magnitude = 0, duration = 3, effect_keywords = []\<rparr>]\<rparr>"

text \<open>A second record with the name of \<open>fire_salts\<close> and other effects.\<close>

definition fire_salts_alt :: Ingredient where
  "fire_salts_alt = \<lparr>name = ''Fire Salts'', effects =
     [\<lparr>name = ''Weakness to Frost'', magnitude = 3, duration = 30, effect_keywords = []\<rparr>,
      \<lparr>name = ''Resist Fire'', magnitude = 3, duration = 60, effect_keywords = []\<rparr>,
      \<lparr>name = ''Restore Magicka'', magnitude = 5, duration = 0, effect_keywords = []\<rparr>,
      \<lparr>name = ''Regenerate Magicka'', magnitude = 5, duration = 300, effect_keywords = []\<rparr>]\<rparr>"

text \<open>
  Three registry entries in ascending order of their names; the first two carry an
  effect named \<open>Toe\<close>, the third is named \<open>Toe\<close>.
\<close>

definition giants_toe :: Ingredient where
  "giants_toe = \<lparr>name = ''Giant's Toe'', effects =
     [\<lparr>name = ''Toe'', magnitude = 1, duration = 1, effect_keywords = []\<rparr>,
      \<lparr>name = ''Fortify Health'', magnitude = 4, duration = 60, effect_keywords = []\<rparr>,
      \<lparr>name = ''Fortify Carry Weight'', magnitude = 4, duration = 300, effect_keywords = []\<rparr>,
      \<lparr>name = ''Damage Stamina Regen'', magnitude = 100, duration = 300, effect_keywords = []\<rparr>]\<rparr>"

definition hawk_beak :: Ingredient where
  "hawk_beak = \<lparr>name = ''Hawk Beak'', effects =
     [\<lparr>name = ''Restore Stamina'', magnitude = 5, duration = 0, effect_keywords = []\<rparr>,
      \<lparr>name = ''Toe'', magnitude = 2, duration = 2, effect_keywords = []\<rparr>,
      \<lparr>name = ''Resist Frost'', magnitude = 3, duration = 60, effect_keywords = []\<rparr>,
      \<lparr>name = ''Resist Shock'', magnitude = 3, duration = 60, effect_keywords = []\<rparr>]\<rparr>"

definition toe :: Ingredient where
  "toe = \<lparr>name = ''Toe'', effects =
     [\<lparr>name = ''Restore Health'', magnitude = 5, duration = 0, effect_keywords = []\<rparr>,
      \<lparr>name = ''Fortify Sneak'', magnitude = 2, duration = 2, effect_keywords = []\<rparr>,
      \<lparr>name = ''Resist Fire'', magnitude = 3, duration = 60, effect_keywords = []\<rparr>,
      \<lparr>name = ''Resist Poison'', magnitude = 3, duration = 60, effect_keywords = []\<rparr>]\<rparr>"





section \<open>Description of the best-fit search\<close>

text \<open>
  What \<open>find_best_fit\<close> does with one entry, per scope: \<open>returns_at\<close> holds when the loop
  returns the entry at once, \<open>collects\<close> when the entry is a candidate. In scope \<open>INGR\<close>
  the entry is returned when its lowercased name equals the query and is a candidate
  when its lowercased name contains the query; scope \<open>EFFECT\<close> tests the effect names
  instead; in scope \<open>BOTH\<close> the effect names are only looked at when the name neither
  equals nor contains the query.
\<close>

definition returns_at :: "FindType \<Rightarrow> string \<Rightarrow> Ingredient \<Rightarrow> bool" where
  "returns_at search nm i =
     (case search of
        INGR \<Rightarrow> tolower (name i) = nm
      | EFFECT \<Rightarrow> list_ex (\<lambda>f. tolower (name f) = nm) (effects i)
      | BOTH \<Rightarrow> tolower (name i) = nm
               \<or> (\<not> sublist nm (tolower (name i)) \<and> list_ex (\<lambda>f. tolower (name f) = nm) (effects i)))"

definition collects :: "FindType \<Rightarrow> string \<Rightarrow> Ingredient \<Rightarrow> bool" where
  "collects search nm i =
     (case search of
        INGR \<Rightarrow> sublist nm (tolower (name i))
      | EFFECT \<Rightarrow> list_ex (\<lambda>f. sublist nm (tolower (name f))) (effects i)
      | BOTH \<Rightarrow> sublist nm (tolower (name i))
               \<or> list_ex (\<lambda>f. sublist nm (tolower (name f))) (effects i))"

section \<open>Description of the effect-merge reduction\<close>







text \<open>
  The invariant of the loop after the sightings \<open>p\<close>: the seen-once buffer holds the first
  sighting of every name, and the confirmed buffer holds, in first-confirmation order,
  one entry per name sighted twice, which is the \<open>merged\<close> entry of the sightings of that
  name.
\<close>

definition seen :: "string \<Rightarrow> Effect list \<Rightarrow> Effect list" where
  "seen n p = filter (\<lambda>s. name s = n) p"




section \<open>Properties of the string functions\<close>

lemma find_from_None_iff: "find_from hay needle pos = None \<longleftrightarrow> \<not> sublist needle hay"
  by (induction hay arbitrary: pos) (auto simp: sublist_Cons_right)

lemma find_from_Some_bound:
  "hay \<noteq> [] \<Longrightarrow> find_from hay needle pos = Some p \<Longrightarrow> p < pos + length hay"
proof (induction hay arbitrary: pos)
  case Nil
  then show ?case by simp
next
  case (Cons c cs)
  show ?case
  proof (cases "prefix needle (c # cs)")
    case True
    with Cons.prems show ?thesis by simp
  next
    case False
    with Cons.prems have rest: "find_from cs needle (Suc pos) = Some p" by simp
    show ?thesis
    proof (cases cs)
      case Nil
      with rest False show ?thesis by (simp split: if_splits)
    next
      case (Cons d ds)
      then have "cs \<noteq> []" by simp
      from Cons.IH [OF this rest] show ?thesis by simp
    qed
  qed
qed

text \<open>
  The test \<open>hay.find(needle) < hay.size()\<close> holds exactly when \<open>needle\<close> is a contiguous
  part of a non-empty \<open>hay\<close>.
\<close>

lemma find_lt_size_iff: "find_lt_size hay needle \<longleftrightarrow> sublist needle hay \<and> hay \<noteq> []"
proof (cases "str_find hay needle")
  case None
  then have "\<not> sublist needle hay"
    using find_from_None_iff [of hay needle 0] by (simp add: str_find_def)
  with None show ?thesis by (simp add: find_lt_size_def)
next
  case (Some p)
  then have sub: "sublist needle hay"
    using find_from_None_iff [of hay needle 0] by (simp add: str_find_def)
  show ?thesis
  proof (cases "hay = []")
    case True
    with Some show ?thesis by (simp add: find_lt_size_def)
  next
    case False
    with Some find_from_Some_bound [of hay needle 0 p] have "p < length hay"
      by (simp add: str_find_def)
    with Some sub False show ?thesis by (simp add: find_lt_size_def)
  qed
qed

lemma eq_or_find_lt_size: "(c = t \<or> find_lt_size c t) \<longleftrightarrow> sublist t c"
  by (cases "c = []") (auto simp: find_lt_size_iff)

section \<open>The size check of the effect-merge reduction\<close>

text \<open>
  C2. \<open>get_common_effects\<close> fails exactly when the list holds fewer than 2 or more than 4
  ingredients: with more than 4 it reports "Too many ingredients", with fewer than 2
  "Not enough ingredients", and it returns a list of effects exactly for the sizes
  2, 3 and 4.
\<close>

theorem get_common_effects_size:
  "(get_common_effects ingr = Inl TooManyIngredients \<longleftrightarrow> 4 < length ingr)
   \<and> (get_common_effects ingr = Inl NotEnoughIngredients \<longleftrightarrow> length ingr < 2)
   \<and> ((\<exists>common. get_common_effects ingr = Inr common) \<longleftrightarrow> 2 \<le> length ingr \<and> length ingr \<le> 4)"
  by (auto simp: get_common_effects_def)

section \<open>Scaling\<close>

lemma calculate_stats_fold:
  "fold (\<lambda>it vec. vec @ [Effect3 kws (name it) (f (magnitude it)) (duration it)]) base acc
   = acc @ map (\<lambda>it. Effect3 kws (name it) (f (magnitude it)) (duration it)) base"
  by (induction base arbitrary: acc) simp_all

lemma calculate_stats_map:
  "calculate_stats kws f base
   = map (\<lambda>it. Effect3 kws (name it) (f (magnitude it)) (duration it)) base"
  by (simp add: calculate_stats_def calculate_stats_fold)

text \<open>
  The scaling step reads the name, the magnitude and the duration of a base effect and
  nothing else: base effects that differ only in their keywords are scaled alike.
\<close>

lemma calculate_stats_reads_no_keywords:
  "calculate_stats kws f (map (\<lambda>e. e\<lparr>effect_keywords := k e\<rparr>) base) = calculate_stats kws f base"
  by (simp add: calculate_stats_map comp_def)

text \<open>
  C4. For every list of base effects and every settings function \<open>f\<close>, \<open>calculate_stats\<close>
  returns a list of the same length whose i-th effect has the name and the duration of
  the i-th base effect and the magnitude \<open>f\<close> applied to the base magnitude; under
  \<open>f(x) = x * 2\<close> every magnitude is doubled and every duration is unchanged. This holds
  whatever keyword set the constructor gives the new effects.
\<close>

theorem calculate_stats_scales:
  "length (calculate_stats kws f base) = length base
   \<and> (\<forall>i < length base.
         name (calculate_stats kws f base ! i) = name (base ! i)
       \<and> magnitude (calculate_stats kws f base ! i) = f (magnitude (base ! i))
       \<and> duration (calculate_stats kws f base ! i) = duration (base ! i)
       \<and> magnitude (calculate_stats kws (\<lambda>x. x * 2) base ! i) = magnitude (base ! i) * 2
       \<and> duration (calculate_stats kws (\<lambda>x. x * 2) base ! i) = duration (base ! i))"
  by (simp add: calculate_stats_map Effect3_def)

theorem calculate_stats_scales_witness:
  "(0::nat) < length (effects fire_salts)
   \<and> name (calculate_stats (\<lambda>n m d. []) (\<lambda>x. x * 2) (effects fire_salts) ! 0) = ''Fire Damage''
   \<and> magnitude (calculate_stats (\<lambda>n m d. []) (\<lambda>x. x * 2) (effects fire_salts) ! 0) = 20
   \<and> duration (calculate_stats (\<lambda>n m d. []) (\<lambda>x. x * 2) (effects fire_salts) ! 0) = 100"
proof -
  let ?final = "calculate_stats (\<lambda>n m d. []) (\<lambda>x. x * 2) (effects fire_salts)"
  have len: "(0::nat) < length (effects fire_salts)"
    by (simp add: fire_salts_def)
  from calculate_stats_scales [of "\<lambda>n m d. []" "\<lambda>x. x * 2" "effects fire_salts"] len
  have "name (?final ! 0) = name (effects fire_salts ! 0)
      \<and> magnitude (?final ! 0) = magnitude (effects fire_salts ! 0) * 2
      \<and> duration (?final ! 0) = duration (effects fire_salts ! 0)"
    by blast
  with len show ?thesis
    by (simp add: fire_salts_def)
qed

section \<open>The match predicate\<close>

text \<open>
  C8, as amended. In exact mode \<open>match\<close> holds iff the candidate equals the term; in
  partial mode it holds iff the term occurs in the candidate as a contiguous part,
  compared character by character, so case-sensitively (\<open>match\<close> lowercases neither
  argument). \<open>match("giant's toe", "toe")\<close> holds in partial mode and fails in exact
  mode; \<open>match("toe", "toe")\<close> holds in both.
\<close>

theorem match_exact_or_contains:
  "match fmt candidate term = (if flag_exact fmt then candidate = term else sublist term candidate)
   \<and> match (Format False True False False False False True False 2) ''giant's toe'' ''toe''
   \<and> \<not> match (Format False True True False False False True False 2) ''giant's toe'' ''toe''
   \<and> match (Format False True False False False False True False 2) ''toe'' ''toe''
   \<and> match (Format False True True False False False True False 2) ''toe'' ''toe''"
proof -
  have general: "match fmt candidate term
      = (if flag_exact fmt then candidate = term else sublist term candidate)"
    by (simp add: match_def eq_or_find_lt_size)
  have examples: "match (Format False True False False False False True False 2) ''giant's toe'' ''toe''
     \<and> \<not> match (Format False True True False False False True False 2) ''giant's toe'' ''toe''
     \<and> match (Format False True False False False False True False 2) ''toe'' ''toe''
     \<and> match (Format False True True False False False True False 2) ''toe'' ''toe''"
    by (simp add: match_def Format_def find_lt_size_def str_find_def)
  from general examples show ?thesis by blast
qed

text \<open>
  The claim as stated fails: \<open>toe\<close> occurs in \<open>Giant's Toe\<close> when case is ignored, but
  \<open>match\<close> in partial mode rejects the pair.
\<close>

theorem match_case_counterexample:
  "sublist (tolower ''toe'') (tolower ''Giant's Toe'')
   \<and> \<not> match (Format False True False False False False True False 2) ''Giant's Toe'' ''toe''"
  by (simp add: match_def Format_def find_lt_size_def str_find_def tolower_def tolower_char_def
      sublist_code)

section \<open>Effect filtering\<close>

lemma vectorize_fold:
  "fold (\<lambda>fx vec. if \<not> q then vec @ [fx]
                   else (let name' = tolower (name fx) in
                         if list_ex (\<lambda>s. match fmt name' s) terms then vec @ [fx] else vec)) effs acc
   = acc @ (if q then filter (\<lambda>fx. list_ex (\<lambda>s. match fmt (tolower (name fx)) s) terms) effs else effs)"
  by (induction effs arbitrary: acc) (simp_all add: Let_def)

lemma vectorize_effects_filter:
  "vectorize_effects fmt effs terms
   = (if flag_quiet fmt then filter (\<lambda>fx. list_ex (\<lambda>s. match fmt (tolower (name fx)) s) terms) effs else effs)"
  unfolding vectorize_effects_def by (simp only: vectorize_fold) simp

lemma get_fx_loop_filter:
  "get_fx_loop fmt arr names vec
   = vec @ (if flag_quiet fmt
            then (if flag_exact fmt
                  then take 1 (filter (\<lambda>fx. list_ex (\<lambda>n. match fmt (tolower (name fx)) n) names) arr)
                  else filter (\<lambda>fx. list_ex (\<lambda>n. match fmt (tolower (name fx)) n) names) arr)
            else arr)"
  by (induction arr arbitrary: vec) (simp_all add: Let_def)

text \<open>
  C7, as amended. With quiet mode off both filters emit all effects. With quiet mode on
  and exact mode off both emit, in order, exactly the effects whose lowercased name
  satisfies \<open>match\<close> against at least one search term. With quiet and exact mode on,
  \<open>Format::get_fx\<close> emits only the first such effect and stops, while
  \<open>Formatter::vectorize_effects\<close> does not stop and emits every such effect.
\<close>

theorem effect_filtering:
  "vectorize_effects fmt effs terms
     = (if flag_quiet fmt
        then filter (\<lambda>fx. list_ex (\<lambda>t. match fmt (tolower (name fx)) t) terms) effs
        else effs)
   \<and> get_fx fmt effs terms
     = (if flag_quiet fmt
        then (if flag_exact fmt
              then take 1 (filter (\<lambda>fx. list_ex (\<lambda>t. match fmt (tolower (name fx)) t) terms) effs)
              else filter (\<lambda>fx. list_ex (\<lambda>t. match fmt (tolower (name fx)) t) terms) effs)
        else effs)"
  by (simp add: vectorize_effects_filter get_fx_def get_fx_loop_filter)

text \<open>
  The claim as stated fails for \<open>Formatter::vectorize_effects\<close>: in quiet and exact mode
  it emits three of the four slots, two of them after the first qualifying one, and the
  name of the first one emitted, as it is written, matches no search term (only its
  lowercased form does).
\<close>

theorem effect_filtering_counterexample:
  "length (effects ember_root) = 4
   \<and> vectorize_effects (Format True True True False False False True False 2)
        (effects ember_root) [''resist frost'', ''fire damage'', ''paralysis'']
      = [effects ember_root ! 0, effects ember_root ! 1, effects ember_root ! 3]
   \<and> \<not> list_ex (\<lambda>t. match (Format True True True False False False True False 2)
                        (name (effects ember_root ! 0)) t)
          [''resist frost'', ''fire damage'', ''paralysis'']"
  by (simp add: vectorize_effects_def ember_root_def Format_def match_def tolower_def tolower_char_def)

section \<open>Linear search\<close>

lemma find_if_from_takeWhile: "find_if_from P xs pos = pos + length (takeWhile (Not \<circ> P) xs)"
  by (induction xs arbitrary: pos) simp_all

lemma first_pos_props:
  "length (takeWhile (Not \<circ> P) xs) \<le> length xs"
  "length (takeWhile (Not \<circ> P) xs) < length xs \<Longrightarrow> P (xs ! length (takeWhile (Not \<circ> P) xs))"
  "j < length (takeWhile (Not \<circ> P) xs) \<Longrightarrow> \<not> P (xs ! j)"
    apply (simp add: length_takeWhile_le)
   apply (metis comp_apply nth_length_takeWhile)
  using nth_mem set_takeWhileD takeWhile_nth
  by (metis comp_apply)

lemma find_if_from_drop:
  assumes "off \<le> length xs"
  shows "off \<le> find_if_from P (drop off xs) off"
    and "find_if_from P (drop off xs) off \<le> length xs"
    and "find_if_from P (drop off xs) off < length xs \<Longrightarrow> P (xs ! find_if_from P (drop off xs) off)"
    and "off \<le> j \<Longrightarrow> j < find_if_from P (drop off xs) off \<Longrightarrow> \<not> P (xs ! j)"
proof -
  let ?k = "length (takeWhile (Not \<circ> P) (drop off xs))"
  have r: "find_if_from P (drop off xs) off = off + ?k"
    by (rule find_if_from_takeWhile)
  have k: "?k \<le> length xs - off"
    using first_pos_props(1) [of P "drop off xs"] by simp
  show "off \<le> find_if_from P (drop off xs) off" by (simp add: r)
  show "find_if_from P (drop off xs) off \<le> length xs" using k assms by (simp add: r)
  show "P (xs ! find_if_from P (drop off xs) off)" if "find_if_from P (drop off xs) off < length xs"
  proof -
    from that have "?k < length (drop off xs)" by (simp add: r)
    from first_pos_props(2) [OF this] assms show ?thesis by (simp add: r)
  qed
  show "\<not> P (xs ! j)" if "off \<le> j" "j < find_if_from P (drop off xs) off"
  proof -
    from that have "j - off < ?k" by (simp add: r)
    from first_pos_props(3) [OF this] that k assms show ?thesis by simp
  qed
qed

text \<open>
  C9, as amended. From a start position inside the registry, \<open>get\<close> with
  \<open>only_effects\<close> false returns the first position at or after the start whose
  ingredient name equals the query exactly; with \<open>only_effects\<close> true it returns the
  first position at or after the start whose ingredient has an effect whose lowercased
  name satisfies the predicate against the query as it was passed (the query is not
  lowercased); in both cases it returns the end of the registry when no such position
  exists.
\<close>

theorem get_first_match:
  assumes "off \<le> length ingr"
  shows "(let r = get pred ingr nm off False in
            off \<le> r \<and> r \<le> length ingr
          \<and> (r < length ingr \<longrightarrow> name (ingr ! r) = nm)
          \<and> (\<forall>j. off \<le> j \<and> j < r \<longrightarrow> name (ingr ! j) \<noteq> nm))
       \<and> (let r = get pred ingr nm off True in
            off \<le> r \<and> r \<le> length ingr
          \<and> (r < length ingr \<longrightarrow> list_ex (\<lambda>fx. pred (tolower (name fx)) nm) (effects (ingr ! r)))
          \<and> (\<forall>j. off \<le> j \<and> j < r \<longrightarrow> \<not> list_ex (\<lambda>fx. pred (tolower (name fx)) nm) (effects (ingr ! j))))"
  using find_if_from_drop [OF assms, where P = "\<lambda>i. name i = nm"]
    find_if_from_drop [OF assms, where P = "\<lambda>i. list_ex (\<lambda>fx. pred (tolower (name fx)) nm) (effects i)"]
  by (simp add: get_def Let_def)

text \<open>
  The claim as stated fails: against the lowercased query \<open>fire\<close> the first entry has a
  matching effect, but \<open>get\<close> compares with the query \<open>FIRE\<close> as passed and returns the end.
\<close>

theorem get_query_case_counterexample:
  "list_ex (\<lambda>fx. match (Format False True False False False False True False 2)
                    (tolower (name fx)) (tolower ''FIRE'')) (effects ([ember_root, fire_salts] ! 0))
   \<and> get (match (Format False True False False False False True False 2))
        [ember_root, fire_salts] ''FIRE'' 0 True = length [ember_root, fire_salts]"
  by (simp add: get_def ember_root_def fire_salts_def Format_def match_def tolower_def tolower_char_def
      find_lt_size_def str_find_def)

theorem get_first_match_witness:
  "(1::nat) \<le> length [ember_root, fire_salts]
   \<and> get (match (Format False True False False False False True False 2))
        [ember_root, fire_salts] ''Fire Salts'' 1 False = 1
   \<and> get (match (Format False True False False False False True False 2))
        [ember_root, fire_salts] ''Fire Salts'' 1 True = 2"
proof -
  let ?pred = "match (Format False True False False False False True False 2)"
  let ?reg = "[ember_root, fire_salts]"
  have off: "(1::nat) \<le> length ?reg" by simp
  have nm: "name (?reg ! 1) = ''Fire Salts''" and nm0: "name (?reg ! 0) \<noteq> ''Fire Salts''"
    by (simp_all add: fire_salts_def ember_root_def)
  have no_fx: "\<not> list_ex (\<lambda>fx. ?pred (tolower (name fx)) ''Fire Salts'') (effects (?reg ! 1))"
    by (simp add: fire_salts_def Format_def match_def tolower_def tolower_char_def find_lt_size_def str_find_def)
  note inst = get_first_match [OF off, of ?pred "''Fire Salts''", unfolded Let_def]
  from inst have a: "1 \<le> get ?pred ?reg ''Fire Salts'' 1 False"
    and b: "\<forall>j. 1 \<le> j \<and> j < get ?pred ?reg ''Fire Salts'' 1 False \<longrightarrow> name (?reg ! j) \<noteq> ''Fire Salts''"
    and c: "1 \<le> get ?pred ?reg ''Fire Salts'' 1 True"
    and d: "get ?pred ?reg ''Fire Salts'' 1 True \<le> length ?reg"
    and e: "get ?pred ?reg ''Fire Salts'' 1 True < length ?reg \<longrightarrow>
            list_ex (\<lambda>fx. ?pred (tolower (name fx)) ''Fire Salts'') (effects (?reg ! get ?pred ?reg ''Fire Salts'' 1 True))"
    by blast+
  have "get ?pred ?reg ''Fire Salts'' 1 False = 1"
  proof (rule ccontr)
    assume "get ?pred ?reg ''Fire Salts'' 1 False \<noteq> 1"
    with a have "1 < get ?pred ?reg ''Fire Salts'' 1 False" by simp
    with b have "name (?reg ! 1) \<noteq> ''Fire Salts''" by blast
    with nm show False by simp
  qed
  moreover have "get ?pred ?reg ''Fire Salts'' 1 True = 2"
  proof (rule ccontr)
    assume "get ?pred ?reg ''Fire Salts'' 1 True \<noteq> 2"
    with c d have r1: "get ?pred ?reg ''Fire Salts'' 1 True = 1" by simp
    with e have "list_ex (\<lambda>fx. ?pred (tolower (name fx)) ''Fire Salts'') (effects (?reg ! 1))"
      by simp
    with no_fx show False by simp
  qed
  ultimately show ?thesis using off by simp
qed

section \<open>Best-fit search\<close>

lemma first_pos_lt: "list_ex P xs \<Longrightarrow> length (takeWhile (Not \<circ> P) xs) < length xs"
  by (induction xs) auto

lemma first_pos_eq_length: "\<not> list_ex P xs \<Longrightarrow> length (takeWhile (Not \<circ> P) xs) = length xs"
  by (induction xs) auto

lemma first_pos_holds: "list_ex P xs \<Longrightarrow> P (xs ! length (takeWhile (Not \<circ> P) xs))"
  by (induction xs) auto

lemma first_pos_least: "j < length (takeWhile (Not \<circ> P) xs) \<Longrightarrow> \<not> P (xs ! j)"
  by (metis comp_apply nth_mem set_takeWhileD takeWhile_nth)


lemma fx_scan_exact:
  "list_ex (\<lambda>f. tolower (name f) = nm) fs \<Longrightarrow> fx_scan nm it fs vec = Inl it"
  by (induction fs arbitrary: vec) (auto simp: Let_def)

lemma fx_scan_no_exact:
  "\<not> list_ex (\<lambda>f. tolower (name f) = nm) fs \<Longrightarrow>
   \<exists>n. fx_scan nm it fs vec = Inr (vec @ replicate n it)
     \<and> (0 < n \<longleftrightarrow> list_ex (\<lambda>f. sublist nm (tolower (name f))) fs)"
proof (induction fs arbitrary: vec)
  case Nil
  then show ?case by simp
next
  case (Cons f fs)
  then have ne: "tolower (name f) \<noteq> nm" and rest: "\<not> list_ex (\<lambda>f. tolower (name f) = nm) fs"
    by simp_all
  from ne have sub: "find_lt_size (tolower (name f)) nm \<longleftrightarrow> sublist nm (tolower (name f))"
    using eq_or_find_lt_size [of "tolower (name f)" nm] by simp
  show ?case
  proof (cases "sublist nm (tolower (name f))")
    case True
    from Cons.IH [OF rest, of "vec @ [it]"] obtain n
      where "fx_scan nm it fs (vec @ [it]) = Inr ((vec @ [it]) @ replicate n it)" by blast
    then have "fx_scan nm it (f # fs) vec = Inr (vec @ replicate (Suc n) it)"
      using ne sub True by (simp add: Let_def)
    with True show ?thesis by (intro exI [of _ "Suc n"]) simp
  next
    case False
    from Cons.IH [OF rest, of vec] obtain n
      where "fx_scan nm it fs vec = Inr (vec @ replicate n it)"
        and "0 < n \<longleftrightarrow> list_ex (\<lambda>f. sublist nm (tolower (name f))) fs" by blast
    with ne sub False show ?thesis by (intro exI [of _ n]) (simp add: Let_def)
  qed
qed

text \<open>One step of the scan: what the loop body does with the entry at position \<open>it\<close>.\<close>

lemma scan_step_returns:
  "returns_at search nm i \<Longrightarrow> best_fit_scan search nm (i # xs) it vec = Inl it"
proof (cases search)
  case BOTH
  assume "returns_at search nm i"
  with BOTH have r: "tolower (name i) = nm
      \<or> (\<not> sublist nm (tolower (name i)) \<and> list_ex (\<lambda>f. tolower (name f) = nm) (effects i))"
    by (simp add: returns_at_def)
  show ?thesis
  proof (cases "tolower (name i) = nm")
    case True
    with BOTH show ?thesis by (simp add: Let_def)
  next
    case False
    with r have ns: "\<not> sublist nm (tolower (name i))"
      and ex: "list_ex (\<lambda>f. tolower (name f) = nm) (effects i)" by simp_all
    from ns have "\<not> find_lt_size (tolower (name i)) nm" by (simp add: find_lt_size_iff)
    with BOTH False fx_scan_exact [OF ex] show ?thesis by (simp add: Let_def)
  qed
next
  case INGR
  assume "returns_at search nm i"
  with INGR show ?thesis by (simp add: returns_at_def Let_def)
next
  case EFFECT
  assume "returns_at search nm i"
  with EFFECT have "list_ex (\<lambda>f. tolower (name f) = nm) (effects i)"
    by (simp add: returns_at_def)
  from fx_scan_exact [OF this] EFFECT show ?thesis by simp
qed

lemma scan_step_continues:
  assumes "\<not> returns_at search nm i"
  shows "\<exists>n. best_fit_scan search nm (i # xs) it vec
             = best_fit_scan search nm xs (Suc it) (vec @ replicate n it)
           \<and> (0 < n \<longleftrightarrow> collects search nm i)"
proof (cases search)
  case INGR
  with assms have ne: "tolower (name i) \<noteq> nm" by (simp add: returns_at_def)
  then have sub: "find_lt_size (tolower (name i)) nm \<longleftrightarrow> sublist nm (tolower (name i))"
    using eq_or_find_lt_size [of "tolower (name i)" nm] by simp
  show ?thesis
  proof (cases "sublist nm (tolower (name i))")
    case True
    with INGR ne sub show ?thesis
      by (intro exI [of _ 1]) (simp add: Let_def collects_def)
  next
    case False
    with INGR ne sub show ?thesis
      by (intro exI [of _ 0]) (simp add: Let_def collects_def)
  qed
next
  case EFFECT
  with assms have "\<not> list_ex (\<lambda>f. tolower (name f) = nm) (effects i)"
    by (simp add: returns_at_def)
  from fx_scan_no_exact [OF this, of it vec] obtain n
    where "fx_scan nm it (effects i) vec = Inr (vec @ replicate n it)"
      and "0 < n \<longleftrightarrow> list_ex (\<lambda>f. sublist nm (tolower (name f))) (effects i)" by blast
  with EFFECT show ?thesis
    by (intro exI [of _ n]) (simp add: collects_def)
next
  case BOTH
  with assms have ne: "tolower (name i) \<noteq> nm"
    and nr: "sublist nm (tolower (name i)) \<or> \<not> list_ex (\<lambda>f. tolower (name f) = nm) (effects i)"
    by (auto simp: returns_at_def)
  from ne have sub: "find_lt_size (tolower (name i)) nm \<longleftrightarrow> sublist nm (tolower (name i))"
    using eq_or_find_lt_size [of "tolower (name i)" nm] by simp
  show ?thesis
  proof (cases "sublist nm (tolower (name i))")
    case True
    with BOTH ne sub show ?thesis
      by (intro exI [of _ 1]) (simp add: Let_def collects_def)
  next
    case False
    with nr have "\<not> list_ex (\<lambda>f. tolower (name f) = nm) (effects i)" by simp
    from fx_scan_no_exact [OF this, of it vec] obtain n
      where "fx_scan nm it (effects i) vec = Inr (vec @ replicate n it)"
        and "0 < n \<longleftrightarrow> list_ex (\<lambda>f. sublist nm (tolower (name f))) (effects i)" by blast
    with BOTH ne sub False show ?thesis
      by (intro exI [of _ n]) (simp add: Let_def collects_def)
  qed
qed

lemma scan_returns:
  "list_ex (returns_at search nm) xs \<Longrightarrow>
   best_fit_scan search nm xs it vec
     = Inl (it + length (takeWhile (Not \<circ> returns_at search nm) xs))"
proof (induction xs arbitrary: it vec)
  case Nil
  then show ?case by simp
next
  case (Cons i xs)
  show ?case
  proof (cases "returns_at search nm i")
    case True
    then show ?thesis by (simp add: scan_step_returns)
  next
    case False
    with Cons.prems have rest: "list_ex (returns_at search nm) xs" by simp
    from scan_step_continues [OF False, of xs it vec] obtain n
      where "best_fit_scan search nm (i # xs) it vec
             = best_fit_scan search nm xs (Suc it) (vec @ replicate n it)" by blast
    with Cons.IH [OF rest] False show ?thesis by simp
  qed
qed

lemma scan_collects:
  "\<not> list_ex (returns_at search nm) xs \<Longrightarrow>
   \<exists>w. best_fit_scan search nm xs it vec = Inr (vec @ w)
     \<and> (if list_ex (collects search nm) xs
         then w \<noteq> [] \<and> hd w = it + length (takeWhile (Not \<circ> collects search nm) xs)
         else w = [])"
proof (induction xs arbitrary: it vec)
  case Nil
  then show ?case by simp
next
  case (Cons i xs)
  then have here: "\<not> returns_at search nm i" and rest: "\<not> list_ex (returns_at search nm) xs"
    by simp_all
  from scan_step_continues [OF here, of xs it vec] obtain n
    where step: "best_fit_scan search nm (i # xs) it vec
             = best_fit_scan search nm xs (Suc it) (vec @ replicate n it)"
      and n: "0 < n \<longleftrightarrow> collects search nm i" by blast
  from Cons.IH [OF rest, of "Suc it" "vec @ replicate n it"] obtain w
    where w: "best_fit_scan search nm xs (Suc it) (vec @ replicate n it) = Inr ((vec @ replicate n it) @ w)"
      and h: "if list_ex (collects search nm) xs
         then w \<noteq> [] \<and> hd w = Suc it + length (takeWhile (Not \<circ> collects search nm) xs)
         else w = []" by blast
  show ?case
  proof (cases "collects search nm i")
    case True
    with n obtain m where "n = Suc m" by (cases n) simp_all
    with step w True show ?thesis
      by (intro exI [of _ "replicate n it @ w"]) simp
  next
    case False
    with n have "n = 0" by simp
    with step w h False show ?thesis
      by (intro exI [of _ w]) simp
  qed
qed

lemma find_best_fit_returns:
  assumes "list_ex (returns_at search nm) ingr"
  shows "find_best_fit ingr nm search = length (takeWhile (Not \<circ> returns_at search nm) ingr)"
  using scan_returns [OF assms, of 0 "[]"] by (simp add: find_best_fit_def)

lemma find_best_fit_collects:
  assumes "\<not> list_ex (returns_at search nm) ingr"
  shows "find_best_fit ingr nm search = length (takeWhile (Not \<circ> collects search nm) ingr)"
proof -
  from scan_collects [OF assms, of 0 "[]"] obtain w
    where w: "best_fit_scan search nm ingr 0 [] = Inr w"
      and h: "if list_ex (collects search nm) ingr
         then w \<noteq> [] \<and> hd w = length (takeWhile (Not \<circ> collects search nm) ingr)
         else w = []" by auto
  show ?thesis
  proof (cases "list_ex (collects search nm) ingr")
    case True
    with h w show ?thesis by (cases w) (simp_all add: find_best_fit_def)
  next
    case False
    with h w first_pos_eq_length [OF False] show ?thesis by (simp add: find_best_fit_def)
  qed
qed

lemma returns_at_collects: "returns_at search nm i \<Longrightarrow> collects search nm i"
  by (cases search) (auto simp: returns_at_def collects_def list_ex_iff)

text \<open>
  C5, as amended. In every scope: when some entry is one that the scan returns at once
  (\<open>returns_at\<close>), \<open>find_best_fit\<close> returns the first such entry in registry order, also
  when earlier entries are candidates; otherwise it returns the first candidate
  (\<open>collects\<close>) in registry order; and it returns the end of the registry when there is no
  candidate, in particular when no entry's name or effect name contains the query. In
  the default scope \<open>INGR\<close> an entry is returned at once iff its lowercased name equals
  the query and is a candidate iff its lowercased name contains the query. The
  function has no failing branch.
\<close>

theorem find_best_fit_result:
  "(list_ex (returns_at search nm) ingr \<longrightarrow>
      find_best_fit ingr nm search < length ingr
    \<and> returns_at search nm (ingr ! find_best_fit ingr nm search)
    \<and> (\<forall>j < find_best_fit ingr nm search. \<not> returns_at search nm (ingr ! j)))
 \<and> (\<not> list_ex (returns_at search nm) ingr \<and> list_ex (collects search nm) ingr \<longrightarrow>
      find_best_fit ingr nm search < length ingr
    \<and> collects search nm (ingr ! find_best_fit ingr nm search)
    \<and> (\<forall>j < find_best_fit ingr nm search. \<not> collects search nm (ingr ! j)))
 \<and> (\<not> list_ex (collects search nm) ingr \<longrightarrow> find_best_fit ingr nm search = length ingr)
 \<and> (\<not> list_ex (\<lambda>i. sublist nm (tolower (name i))
                    \<or> list_ex (\<lambda>f. sublist nm (tolower (name f))) (effects i)) ingr \<longrightarrow>
      find_best_fit ingr nm search = length ingr)"
proof (intro conjI impI)
  assume ex: "list_ex (returns_at search nm) ingr"
  note r = find_best_fit_returns [OF ex]
  show "find_best_fit ingr nm search < length ingr"
    using first_pos_lt [OF ex] by (simp add: r)
  show "returns_at search nm (ingr ! find_best_fit ingr nm search)"
    using first_pos_holds [OF ex] by (simp add: r)
  show "\<forall>j < find_best_fit ingr nm search. \<not> returns_at search nm (ingr ! j)"
    using first_pos_least [of _ "returns_at search nm" ingr] by (simp add: r)
next
  assume a: "\<not> list_ex (returns_at search nm) ingr \<and> list_ex (collects search nm) ingr"
  then have nex: "\<not> list_ex (returns_at search nm) ingr"
    and sub: "list_ex (collects search nm) ingr" by simp_all
  note r = find_best_fit_collects [OF nex]
  show "find_best_fit ingr nm search < length ingr"
    using first_pos_lt [OF sub] by (simp add: r)
  show "collects search nm (ingr ! find_best_fit ingr nm search)"
    using first_pos_holds [OF sub] by (simp add: r)
  show "\<forall>j < find_best_fit ingr nm search. \<not> collects search nm (ingr ! j)"
    using first_pos_least [of _ "collects search nm" ingr] by (simp add: r)
next
  assume nsub: "\<not> list_ex (collects search nm) ingr"
  then have "\<not> list_ex (returns_at search nm) ingr"
    by (auto simp: list_ex_iff dest: returns_at_collects)
  from find_best_fit_collects [OF this] first_pos_eq_length [OF nsub]
  show "find_best_fit ingr nm search = length ingr" by simp
next
  assume "\<not> list_ex (\<lambda>i. sublist nm (tolower (name i))
                    \<or> list_ex (\<lambda>f. sublist nm (tolower (name f))) (effects i)) ingr"
  then have nsub: "\<not> list_ex (collects search nm) ingr"
    by (cases search) (auto simp: list_ex_iff collects_def)
  then have "\<not> list_ex (returns_at search nm) ingr"
    by (auto simp: list_ex_iff dest: returns_at_collects)
  from find_best_fit_collects [OF this] first_pos_eq_length [OF nsub]
  show "find_best_fit ingr nm search = length ingr" by simp
qed

text \<open>
  The claim as stated fails outside scope \<open>INGR\<close>: the third entry is the first whose
  lowercased name equals the query, but scope \<open>BOTH\<close> returns the second entry and scope
  \<open>EFFECT\<close> the first, whose names differ from the query.
\<close>

theorem find_best_fit_counterexample:
  "tolower (name ([giants_toe, hawk_beak, toe] ! 2)) = ''toe''
   \<and> find_best_fit [giants_toe, hawk_beak, toe] ''toe'' BOTH = 1
   \<and> tolower (name ([giants_toe, hawk_beak, toe] ! 1)) \<noteq> ''toe''
   \<and> find_best_fit [giants_toe, hawk_beak, toe] ''toe'' EFFECT = 0
   \<and> tolower (name ([giants_toe, hawk_beak, toe] ! 0)) \<noteq> ''toe''"
  by (simp add: find_best_fit_def toe_def hawk_beak_def giants_toe_def tolower_def tolower_char_def
      find_lt_size_def str_find_def)


theorem find_best_fit_result_witness:
  "list_ex (returns_at INGR ''toe'') [giants_toe, hawk_beak, toe]
   \<and> find_best_fit [giants_toe, hawk_beak, toe] ''toe'' INGR = 2
   \<and> \<not> list_ex (returns_at INGR ''beak'') [giants_toe, hawk_beak, toe]
   \<and> list_ex (collects INGR ''beak'') [giants_toe, hawk_beak, toe]
   \<and> find_best_fit [giants_toe, hawk_beak, toe] ''beak'' INGR = 1
   \<and> \<not> list_ex (\<lambda>i. sublist ''zzz'' (tolower (name i))
                    \<or> list_ex (\<lambda>f. sublist ''zzz'' (tolower (name f))) (effects i))
          [giants_toe, hawk_beak, toe]
   \<and> find_best_fit [giants_toe, hawk_beak, toe] ''zzz'' BOTH = length [giants_toe, hawk_beak, toe]"
proof -
  let ?reg = "[giants_toe, hawk_beak, toe]"
  have names: "tolower (name giants_toe) = ''giant's toe''" "tolower (name hawk_beak) = ''hawk beak''"
    "tolower (name toe) = ''toe''"
    by (simp_all add: giants_toe_def hawk_beak_def toe_def tolower_def tolower_char_def)
  have ex: "list_ex (returns_at INGR ''toe'') ?reg"
    by (simp add: returns_at_def names)
  from find_best_fit_result [of INGR "''toe''" ?reg] ex
  have lt: "find_best_fit ?reg ''toe'' INGR < length ?reg"
    and at: "returns_at INGR ''toe'' (?reg ! find_best_fit ?reg ''toe'' INGR)"
    by blast+
  from lt have "find_best_fit ?reg ''toe'' INGR = 0 \<or> find_best_fit ?reg ''toe'' INGR = 1
      \<or> find_best_fit ?reg ''toe'' INGR = 2" by (simp add: less_Suc_eq numeral_3_eq_3) arith
  moreover have "\<not> returns_at INGR ''toe'' (?reg ! 0)" "\<not> returns_at INGR ''toe'' (?reg ! 1)"
    by (simp_all add: returns_at_def names)
  ultimately have toe: "find_best_fit ?reg ''toe'' INGR = 2"
    using at by auto
  have nex: "\<not> list_ex (returns_at INGR ''beak'') ?reg"
    by (simp add: returns_at_def names)
  have col: "list_ex (collects INGR ''beak'') ?reg"
    by (simp add: collects_def names sublist_code)
  from find_best_fit_result [of INGR "''beak''" ?reg] nex col
  have lt: "find_best_fit ?reg ''beak'' INGR < length ?reg"
    and at: "collects INGR ''beak'' (?reg ! find_best_fit ?reg ''beak'' INGR)"
    and least: "\<forall>j < find_best_fit ?reg ''beak'' INGR. \<not> collects INGR ''beak'' (?reg ! j)"
    by blast+
  from lt have "find_best_fit ?reg ''beak'' INGR = 0 \<or> find_best_fit ?reg ''beak'' INGR = 1
      \<or> find_best_fit ?reg ''beak'' INGR = 2" by (simp add: less_Suc_eq numeral_3_eq_3) arith
  moreover have "\<not> collects INGR ''beak'' (?reg ! 0)" "collects INGR ''beak'' (?reg ! 1)"
    by (simp_all add: collects_def names sublist_code)
  moreover have "\<not> 1 < find_best_fit ?reg ''beak'' INGR"
  proof
    assume "1 < find_best_fit ?reg ''beak'' INGR"
    with least have "\<not> collects INGR ''beak'' (?reg ! 1)" by blast
    then show False by (simp add: collects_def names sublist_code)
  qed
  ultimately have beak: "find_best_fit ?reg ''beak'' INGR = 1"
    using at by auto
  have none: "\<not> list_ex (\<lambda>i. sublist ''zzz'' (tolower (name i))
                    \<or> list_ex (\<lambda>f. sublist ''zzz'' (tolower (name f))) (effects i)) ?reg"
    by (simp add: names sublist_code)
       (simp add: giants_toe_def hawk_beak_def toe_def tolower_def tolower_char_def sublist_code)
  from find_best_fit_result [of BOTH "''zzz''" ?reg] none
  have zzz: "find_best_fit ?reg ''zzz'' BOTH = length ?reg" by blast
  from ex toe nex col beak none zzz show ?thesis by blast
qed

section \<open>Registry construction\<close>

lemma set_insert_rejected: "\<not> snd (set_insert lt x xs) \<Longrightarrow> fst (set_insert lt x xs) = xs"
  by (induction xs) (auto simp: Let_def split: if_splits)

lemma set_insert_length:
  "length (fst (set_insert lt x xs)) = (if snd (set_insert lt x xs) then Suc (length xs) else length xs)"
  by (induction xs) (auto simp: Let_def)

lemma set_insert_set:
  "set (fst (set_insert lt x xs)) = (if snd (set_insert lt x xs) then insert x (set xs) else set xs)"
  by (induction xs) (auto simp: Let_def)

lemma set_insert_accepts_iff:
  "sorted_wrt (\<lambda>a b. name a < name b) xs \<Longrightarrow>
   snd (set_insert less_Ingredient x xs) \<longleftrightarrow> name x \<notin> name ` set xs"
  by (induction xs) (auto simp: Let_def less_Ingredient_def)

lemma set_insert_sorted:
  "sorted_wrt (\<lambda>a b. name a < name b) xs \<Longrightarrow>
   sorted_wrt (\<lambda>a b. name a < name b) (fst (set_insert less_Ingredient x xs))"
proof (induction xs)
  case Nil
  then show ?case by simp
next
  case (Cons y ys)
  show ?case
  proof (cases "name x < name y")
    case True
    with Cons.prems show ?thesis
      by (auto simp: less_Ingredient_def)
  next
    case False
    show ?thesis
    proof (cases "name y < name x")
      case True
      from Cons have "sorted_wrt (\<lambda>a b. name a < name b) (fst (set_insert less_Ingredient x ys))"
        by simp
      moreover have "\<forall>z \<in> set (fst (set_insert less_Ingredient x ys)). name y < name z"
        using Cons.prems True by (auto simp: set_insert_set split: if_splits)
      moreover have "\<not> less_Ingredient x y" "less_Ingredient y x"
        using True False by (simp_all add: less_Ingredient_def)
      ultimately show ?thesis
        by (simp add: Let_def)
    next
      case nlt: False
      with False Cons.prems show ?thesis by (simp add: less_Ingredient_def)
    qed
  qed
qed


lemma sort_from_simps:
  "sort_from st [] = st"
  "sort_from st (x # xs) = sort_from (sort_insert st x) xs"
  by (simp_all add: sort_from_def)

lemma sort_insert_fst:
  "fst (sort_insert st x) = fst (set_insert less_Ingredient x (fst st))"
  by (simp add: sort_insert_def Let_def)

lemma sort_insert_snd:
  "snd (sort_insert st x) = (if snd (set_insert less_Ingredient x (fst st)) then snd st else snd st + 1)"
  by (simp add: sort_insert_def Let_def)

lemma sort_from_sorted:
  "sorted_wrt (\<lambda>a b. name a < name b) (fst st) \<Longrightarrow>
   sorted_wrt (\<lambda>a b. name a < name b) (fst (sort_from st xs))"
  by (induction xs arbitrary: st) (simp_all add: sort_from_simps sort_insert_fst set_insert_sorted)

lemma sort_from_names:
  "sorted_wrt (\<lambda>a b. name a < name b) (fst st) \<Longrightarrow>
   name ` set (fst (sort_from st xs)) = name ` set (fst st) \<union> name ` set xs"
proof (induction xs arbitrary: st)
  case Nil
  then show ?case by (simp add: sort_from_simps)
next
  case (Cons x xs)
  have s: "sorted_wrt (\<lambda>a b. name a < name b) (fst (sort_insert st x))"
    using Cons.prems by (simp add: sort_insert_fst set_insert_sorted)
  have "name ` set (fst (sort_insert st x)) = insert (name x) (name ` set (fst st))"
    using set_insert_accepts_iff [OF Cons.prems, of x]
    by (auto simp: sort_insert_fst set_insert_set)
  with Cons.IH [OF s] show ?case by (simp add: sort_from_simps)
qed

lemma sort_from_kept:
  "sorted_wrt (\<lambda>a b. name a < name b) (fst st) \<Longrightarrow> e \<in> set (fst (sort_from st xs)) \<Longrightarrow>
   e \<in> set (fst st) \<or> (name e \<notin> name ` set (fst st) \<and> find (\<lambda>y. name y = name e) xs = Some e)"
proof (induction xs arbitrary: st)
  case Nil
  then show ?case by (simp add: sort_from_simps)
next
  case (Cons x xs)
  have s: "sorted_wrt (\<lambda>a b. name a < name b) (fst (sort_insert st x))"
    using Cons.prems(1) by (simp add: sort_insert_fst set_insert_sorted)
  from Cons.prems(2) have "e \<in> set (fst (sort_from (sort_insert st x) xs))"
    by (simp add: sort_from_simps)
  from Cons.IH [OF s this] consider
      (old) "e \<in> set (fst (sort_insert st x))"
    | (new) "name e \<notin> name ` set (fst (sort_insert st x))" "find (\<lambda>y. name y = name e) xs = Some e"
    by blast
  then show ?case
  proof cases
    case old
    show ?thesis
    proof (cases "snd (set_insert less_Ingredient x (fst st))")
      case True
      with old have "e = x \<or> e \<in> set (fst st)"
        by (simp add: sort_insert_fst set_insert_set)
      moreover from True have "name x \<notin> name ` set (fst st)"
        using set_insert_accepts_iff [OF Cons.prems(1), of x] by simp
      ultimately show ?thesis by auto
    next
      case False
      with old show ?thesis by (simp add: sort_insert_fst set_insert_set)
    qed
  next
    case new
    have "name ` set (fst (sort_insert st x)) = insert (name x) (name ` set (fst st))"
      using set_insert_accepts_iff [OF Cons.prems(1), of x]
      by (auto simp: sort_insert_fst set_insert_set)
    with new show ?thesis by auto
  qed
qed

lemma sort_from_length:
  "length (fst (sort_from st xs)) \<le> length (fst st) + length xs"
proof (induction xs arbitrary: st)
  case Nil
  then show ?case by (simp add: sort_from_simps)
next
  case (Cons x xs)
  have "length (fst (sort_insert st x)) \<le> Suc (length (fst st))"
    by (simp add: sort_insert_fst set_insert_length)
  with Cons [of "sort_insert st x"] show ?case by (simp add: sort_from_simps)
qed

lemma sort_from_count:
  "snd (sort_from st xs) = snd st + of_nat (length (fst st) + length xs - length (fst (sort_from st xs)))"
proof (induction xs arbitrary: st)
  case Nil
  then show ?case by (simp add: sort_from_simps)
next
  case (Cons x xs)
  note len = sort_from_length [of "sort_insert st x" xs]
  show ?case
  proof (cases "snd (set_insert less_Ingredient x (fst st))")
    case True
    then have "length (fst (sort_insert st x)) = Suc (length (fst st))" "snd (sort_insert st x) = snd st"
      by (simp_all add: sort_insert_fst sort_insert_snd set_insert_length)
    with Cons [of "sort_insert st x"] show ?thesis by (simp add: sort_from_simps)
  next
    case False
    then have l: "length (fst (sort_insert st x)) = length (fst st)" and c: "snd (sort_insert st x) = snd st + 1"
      by (simp_all add: sort_insert_fst sort_insert_snd set_insert_length)
    from len l have "Suc (length (fst st) + length xs - length (fst (sort_from (sort_insert st x) xs)))
        = length (fst st) + length (x # xs) - length (fst (sort_from (sort_insert st x) xs))"
      by simp
    then have "of_nat (length (fst st) + length (x # xs) - length (fst (sort_from (sort_insert st x) xs)))
        = (1::32 word) + of_nat (length (fst st) + length xs - length (fst (sort_from (sort_insert st x) xs)))"
      by (metis of_nat_Suc)
    with Cons [of "sort_insert st x"] l c show ?thesis by (simp add: sort_from_simps)
  qed
qed

lemma IngredientCache_sort_from: "IngredientCache_sort xs = sort_from ([], 0) xs"
  by (simp add: IngredientCache_sort_def sort_from_def)

lemma sort_sorted: "sorted_wrt (\<lambda>a b. name a < name b) (fst (IngredientCache_sort xs))"
  by (simp add: IngredientCache_sort_from sort_from_sorted)

lemma sort_names: "name ` set (fst (IngredientCache_sort xs)) = name ` set xs"
  by (simp add: IngredientCache_sort_from sort_from_names)

lemma sort_kept:
  "e \<in> set (fst (IngredientCache_sort xs)) \<Longrightarrow> find (\<lambda>y. name y = name e) xs = Some e"
  using sort_from_kept [of "([], 0)" e xs] by (simp add: IngredientCache_sort_from)

lemma sort_length: "length (fst (IngredientCache_sort xs)) \<le> length xs"
  using sort_from_length [of "([], 0)" xs] by (simp add: IngredientCache_sort_from)

lemma sort_count:
  "snd (IngredientCache_sort xs) = of_nat (length xs - length (fst (IngredientCache_sort xs)))"
  using sort_from_count [of "([], 0)" xs] by (simp add: IngredientCache_sort_from)

lemma sort_map_name:
  "sorted (map name (fst (IngredientCache_sort xs))) \<and> distinct (map name (fst (IngredientCache_sort xs)))"
proof -
  have "sorted_wrt (<) (map name (fst (IngredientCache_sort xs)))"
    using sort_sorted [of xs] by (simp add: sorted_wrt_map)
  then show ?thesis by (simp only: strict_sorted_iff)
qed

lemma sort_keys_permutation:
  assumes "mset xs = mset ys"
  shows "map name (fst (IngredientCache_sort xs)) = map name (fst (IngredientCache_sort ys))"
proof -
  from assms have "set xs = set ys" by (rule mset_eq_setD)
  then have "set (map name (fst (IngredientCache_sort xs))) = set (map name (fst (IngredientCache_sort ys)))"
    by (simp add: sort_names)
  with sort_map_name [of xs] sort_map_name [of ys] show ?thesis
    by (intro sorted_distinct_set_unique) simp_all
qed

text \<open>
  C3, as amended. For every ingredient list and every permutation of it,
  \<open>IngredientCache::sort\<close> produces the same ordered sequence of keys (ingredient names)
  and the same duplicate count; the two results are identical when no two distinct
  records of the input share a name.
\<close>

theorem sort_permutation:
  assumes "mset xs = mset ys"
  shows "map name (fst (IngredientCache_sort xs)) = map name (fst (IngredientCache_sort ys))
       \<and> snd (IngredientCache_sort xs) = snd (IngredientCache_sort ys)
       \<and> (inj_on name (set xs) \<longrightarrow> IngredientCache_sort xs = IngredientCache_sort ys)"
proof -
  note keys = sort_keys_permutation [OF assms]
  from assms have len: "length xs = length ys" by (rule mset_eq_length)
  from keys have "length (fst (IngredientCache_sort xs)) = length (fst (IngredientCache_sort ys))"
    by (rule map_eq_imp_length_eq)
  with len have cnt: "snd (IngredientCache_sort xs) = snd (IngredientCache_sort ys)"
    by (simp add: sort_count)
  have "fst (IngredientCache_sort xs) = fst (IngredientCache_sort ys)" if inj: "inj_on name (set xs)"
  proof -
    from assms have sets: "set xs = set ys" by (rule mset_eq_setD)
    have sub: "set (fst (IngredientCache_sort zs)) \<subseteq> set zs" for zs
    proof
      fix e assume "e \<in> set (fst (IngredientCache_sort zs))"
      from sort_kept [OF this] show "e \<in> set zs" by (auto dest: find_Some_iff [THEN iffD1] simp: in_set_conv_nth)
    qed
    from sub [of xs] sub [of ys] sets inj
    have "inj_on name (set (fst (IngredientCache_sort xs)) \<union> set (fst (IngredientCache_sort ys)))"
      by (auto intro: inj_on_subset)
    from inj_on_map_eq_map [OF this] keys show ?thesis by simp
  qed
  with keys cnt show ?thesis by (simp add: prod_eq_iff)
qed

text \<open>
  The claim as stated fails: of two records with the same name the one inserted first
  is kept, so the two orders of the same input give different collections.
\<close>

theorem sort_permutation_counterexample:
  "mset [fire_salts, fire_salts_alt] = mset [fire_salts_alt, fire_salts]
   \<and> fst (IngredientCache_sort [fire_salts, fire_salts_alt]) = [fire_salts]
   \<and> fst (IngredientCache_sort [fire_salts_alt, fire_salts]) = [fire_salts_alt]
   \<and> fire_salts \<noteq> fire_salts_alt"
  by (simp add: IngredientCache_sort_def sort_insert_def less_Ingredient_def fire_salts_def fire_salts_alt_def)

theorem sort_permutation_witness:
  "mset [toe, ember_root, fire_salts, toe] = mset [fire_salts, toe, toe, ember_root]
   \<and> inj_on name (set [toe, ember_root, fire_salts, toe])
   \<and> IngredientCache_sort [toe, ember_root, fire_salts, toe] = ([ember_root, fire_salts, toe], 1)
   \<and> IngredientCache_sort [fire_salts, toe, toe, ember_root] = ([ember_root, fire_salts, toe], 1)"
proof -
  have m: "mset [toe, ember_root, fire_salts, toe] = mset [fire_salts, toe, toe, ember_root]"
    by simp
  have names: "name toe = ''Toe''" "name ember_root = ''Ember Root''" "name fire_salts = ''Fire Salts''"
    by (simp_all add: toe_def ember_root_def fire_salts_def)
  have inj: "inj_on name (set [toe, ember_root, fire_salts, toe])"
    by (auto simp: inj_on_def names)
  have one: "IngredientCache_sort [toe, ember_root, fire_salts, toe] = ([ember_root, fire_salts, toe], 1)"
    by (simp add: IngredientCache_sort_def sort_insert_def less_Ingredient_def names)
  from sort_permutation [OF m] inj
  have "IngredientCache_sort [toe, ember_root, fire_salts, toe]
      = IngredientCache_sort [fire_salts, toe, toe, ember_root]" by blast
  with m inj one show ?thesis by simp
qed


lemma same_key_iff:
  "\<not> less_Ingredient a b \<and> \<not> less_Ingredient b a \<longleftrightarrow> name a = name b"
  by (auto simp: less_Ingredient_def)

lemma filter_distinct_key:
  "distinct (map f l) \<Longrightarrow> e \<in> set l \<Longrightarrow> filter (\<lambda>x. f x = f e) l = [e]"
proof (induction l)
  case Nil
  then show ?case by simp
next
  case (Cons y l)
  show ?case
  proof (cases "e = y")
    case True
    with Cons.prems have "f e \<notin> f ` set l" by simp
    then have "\<forall>x \<in> set l. f x \<noteq> f e" by (metis imageI)
    then have "filter (\<lambda>x. f x = f e) l = []" by (simp add: filter_empty_conv)
    with True show ?thesis by simp
  next
    case False
    with Cons.prems have "e \<in> set l" "f y \<noteq> f e" by auto
    with Cons show ?thesis by simp
  qed
qed

text \<open>
  C6. When two entries of the input have the same ordering key (neither is less than
  the other), the registry holds exactly one entry with that key, which is the first
  entry of the input with that key; the counter equals the number of rejected
  insertions (the inputs that are not in the registry) and is at least 1. The counter
  is an \<open>unsigned\<close>, so the count is stated for inputs of fewer than \<open>2^32\<close> entries.
\<close>

theorem sort_rejects_duplicates:
  assumes "i < j" and "j < length xs"
    and "\<not> less_Ingredient (xs ! i) (xs ! j)" and "\<not> less_Ingredient (xs ! j) (xs ! i)"
    and "length xs < 2 ^ 32"
  shows "(\<exists>k. find (\<lambda>y. \<not> less_Ingredient y (xs ! i) \<and> \<not> less_Ingredient (xs ! i) y) xs = Some k
            \<and> filter (\<lambda>e. \<not> less_Ingredient e (xs ! i) \<and> \<not> less_Ingredient (xs ! i) e)
                 (fst (IngredientCache_sort xs)) = [k])
       \<and> unat (snd (IngredientCache_sort xs)) = length xs - length (fst (IngredientCache_sort xs))
       \<and> 1 \<le> unat (snd (IngredientCache_sort xs))"
proof -
  let ?L = "fst (IngredientCache_sort xs)"
  from assms have key: "name (xs ! i) = name (xs ! j)" and ij: "i < length xs" "i \<noteq> j"
    by (simp_all add: less_Ingredient_def)
  have eqv: "(\<lambda>y. \<not> less_Ingredient y (xs ! i) \<and> \<not> less_Ingredient (xs ! i) y)
      = (\<lambda>y. name y = name (xs ! i))"
    by (simp add: same_key_iff)
  from ij have "name (xs ! i) \<in> name ` set xs" by simp
  then have "name (xs ! i) \<in> name ` set ?L" by (simp add: sort_names)
  then obtain k where k: "k \<in> set ?L" "name k = name (xs ! i)" by auto
  from sort_kept [OF k(1)] k(2) have first: "find (\<lambda>y. name y = name (xs ! i)) xs = Some k"
    by simp
  from sort_map_name [of xs] have dist: "distinct (map name ?L)" by simp
  from filter_distinct_key [OF dist k(1)] k(2)
  have one: "filter (\<lambda>e. name e = name (xs ! i)) ?L = [k]" by simp
  have "\<not> distinct (map name xs)"
    using key ij assms(2) by (auto simp: distinct_conv_nth)
  then have "card (set (map name xs)) < length (map name xs)"
    using card_length [of "map name xs"] card_distinct [of "map name xs"] by linarith
  moreover have "card (set (map name ?L)) = length ?L"
    using distinct_card [OF dist] by simp
  ultimately have less: "length ?L < length xs"
    by (simp add: sort_names)
  have "unat (snd (IngredientCache_sort xs)) = length xs - length ?L"
  proof -
    have "length xs - length ?L < 2 ^ LENGTH(32)" using assms(5) by simp
    then have "(length xs - length ?L) mod 2 ^ LENGTH(32) = length xs - length ?L" by simp
    then show ?thesis by (simp add: sort_count unat_of_nat)
  qed
  with less first one show ?thesis by (simp add: eqv)
qed

theorem sort_rejects_duplicates_witness:
  "(0::nat) < 1 \<and> 1 < length [fire_salts, fire_salts_alt, ember_root]
   \<and> \<not> less_Ingredient ([fire_salts, fire_salts_alt, ember_root] ! 0) ([fire_salts, fire_salts_alt, ember_root] ! 1)
   \<and> \<not> less_Ingredient ([fire_salts, fire_salts_alt, ember_root] ! 1) ([fire_salts, fire_salts_alt, ember_root] ! 0)
   \<and> length [fire_salts, fire_salts_alt, ember_root] < 2 ^ 32
   \<and> IngredientCache_sort [fire_salts, fire_salts_alt, ember_root] = ([ember_root, fire_salts], 1)
   \<and> 1 \<le> unat (snd (IngredientCache_sort [fire_salts, fire_salts_alt, ember_root]))"
proof -
  let ?xs = "[fire_salts, fire_salts_alt, ember_root]"
  have names: "name fire_salts = ''Fire Salts''" "name fire_salts_alt = ''Fire Salts''"
    "name ember_root = ''Ember Root''"
    by (simp_all add: fire_salts_def fire_salts_alt_def ember_root_def)
  have h: "(0::nat) < 1" "1 < length ?xs" "\<not> less_Ingredient (?xs ! 0) (?xs ! 1)"
    "\<not> less_Ingredient (?xs ! 1) (?xs ! 0)" "length ?xs < 2 ^ 32"
    by (simp_all add: less_Ingredient_def names)
  from sort_rejects_duplicates [OF h]
  have cnt: "1 \<le> unat (snd (IngredientCache_sort ?xs))" by blast
  have "IngredientCache_sort ?xs = ([ember_root, fire_salts], 1)"
    by (simp add: IngredientCache_sort_def sort_insert_def less_Ingredient_def names)
  with h cnt show ?thesis by blast
qed

section \<open>The effect-merge reduction\<close>









lemma is_duplicate_find:
  "name f \<in> name ` set t \<Longrightarrow> find (\<lambda>s. name s = name f) t = Some (t ! is_duplicate t f)"
  by (induction t) auto


























lemma set_seen: "set (seen n p) = {s \<in> set p. name s = n}"
  by (auto simp: seen_def)




lemma common_fire_salts_ember_root:
  "get_common_effects [fire_salts, ember_root] =
     Inr [\<lparr>name = ''Fire Damage'', magnitude = 20, duration = 5,
           effect_keywords = [''MagicDamageFire'']\<rparr>]"
  by (simp add: get_common_effects_def merge_ingredient_def merge_effect_def
      fire_salts_def ember_root_def)






end
